theory Spec2Isabelle
  imports Main "HOL-Library.Word"
begin

unbundle bit_operations_syntax

section \<open>Bytes, machine integers and errors\<close>

text \<open>
  A Go \<^verbatim>\<open>string\<close> and a Go \<^verbatim>\<open>[]byte\<close> are both sequences of bytes; keys, values,
  buffers and the content of the log file are byte lists. \<^verbatim>\<open>uint32\<close> is a 32-bit word, so
  every addition on it wraps around and every conversion to it truncates.
\<close>

type_synonym byte = "8 word"
type_synonym bytes = "byte list"
type_synonym u32 = "32 word"

text \<open>
  The errors and panics the store can produce. \<open>EOF\<close> is \<^verbatim>\<open>io.EOF\<close>, \<open>ErrClosed\<close> the error of
  an operation on a closed \<^verbatim>\<open>*os.File\<close>, \<open>IOError\<close> any other error of the operating system,
  \<open>EOFReadingKey\<close> is \<^verbatim>\<open>errors.New("EOF reading key")\<close>, \<open>SliceBounds\<close> the run-time panic of a
  slice expression out of range, and \<open>FailedToSync e\<close> the panic
  \<^verbatim>\<open>panic(fmt.Sprintf("Failed to sync to disk %s", err.Error()))\<close> of \<^verbatim>\<open>Set\<close>.
\<close>

datatype error =
    EOF
  | ErrClosed
  | IOError string
  | EOFReadingKey
  | SliceBounds
  | FailedToSync error

text \<open>\<^verbatim>\<open>make([]byte, n)\<close>: a fresh buffer of \<open>n\<close> zero bytes.\<close>

definition make_bytes :: "nat \<Rightarrow> bytes" where
  "make_bytes n = replicate n 0"

section \<open>The record codec\<close>

text \<open>
  The file that holds the codec (\<^verbatim>\<open>headerSize\<close>, \<^verbatim>\<open>KeyEntry\<close>, \<^verbatim>\<open>NewKeyEntry\<close>, \<^verbatim>\<open>encodeKV\<close>,
  \<^verbatim>\<open>decodeHeader\<close>, \<^verbatim>\<open>decodeKV\<close>) is not among the sources; \<^verbatim>\<open>disk_store.go\<close> only calls it.
  The definitions of this section follow the specification of the record format.
\<close>

text \<open>
  Modelled from the spec: the byte order of the header fields. The specification asks for
  "a defined fixed byte order" and does not name it, so the order is a parameter of the
  codec and of every operation of the store, and every result holds for both orders.
\<close>

datatype byte_order = LittleEndian | BigEndian

definition put_u32_le :: "u32 \<Rightarrow> bytes" where
  "put_u32_le w = [ucast w, ucast (drop_bit 8 w), ucast (drop_bit 16 w), ucast (drop_bit 24 w)]"

definition get_u32_le :: "bytes \<Rightarrow> u32" where
  "get_u32_le b =
     ucast (b ! 0) OR push_bit 8 (ucast (b ! 1)) OR push_bit 16 (ucast (b ! 2))
       OR push_bit 24 (ucast (b ! 3))"

fun put_u32 :: "byte_order \<Rightarrow> u32 \<Rightarrow> bytes" where
  "put_u32 LittleEndian w = put_u32_le w"
| "put_u32 BigEndian w = rev (put_u32_le w)"

text \<open>\<open>get_u32\<close> is only applied to lists of four bytes.\<close>

fun get_u32 :: "byte_order \<Rightarrow> bytes \<Rightarrow> u32" where
  "get_u32 LittleEndian b = get_u32_le b"
| "get_u32 BigEndian b = get_u32_le (rev b)"

text \<open>
  Modelled from the spec: \<^verbatim>\<open>headerSize\<close>, the width of the header
  "timestamp:uint32 | key_size:uint32 | value_size:uint32" with no padding.
\<close>

definition headerSize :: nat where
  "headerSize = 12"

text \<open>
  Modelled from the spec: \<^verbatim>\<open>KeyEntry\<close> and its constructor, "timestamp", "offset: unsigned
  32-bit byte offset of the record's start", "size: unsigned 32-bit total byte length of
  the record". The field names \<open>Offset\<close> and \<open>Size\<close> are those \<^verbatim>\<open>Get\<close> reads.
\<close>

record KeyEntry =
  Timestamp :: u32
  Offset :: u32
  Size :: u32

definition NewKeyEntry :: "u32 \<Rightarrow> u32 \<Rightarrow> u32 \<Rightarrow> KeyEntry" where
  "NewKeyEntry timestamp position totalSize =
     \<lparr>Timestamp = timestamp, Offset = position, Size = totalSize\<rparr>"

text \<open>
  Modelled from the spec: the header is the three fields "each fixed-width, a defined fixed
  byte order", in the order timestamp, key size, value size.
\<close>

definition encodeHeader :: "byte_order \<Rightarrow> u32 \<Rightarrow> u32 \<Rightarrow> u32 \<Rightarrow> bytes" where
  "encodeHeader bo timestamp keySize valueSize =
     put_u32 bo timestamp @ put_u32 bo keySize @ put_u32 bo valueSize"

text \<open>
  Modelled from the spec: \<^verbatim>\<open>encodeKV\<close>, "fixed header concatenated with the raw key bytes and
  raw value bytes; and the integer total_size = header size + len(key) + len(value)". The
  result is the pair in the order \<^verbatim>\<open>Set\<close> receives it. "No length limits enforced beyond
  the width of the size fields": a length is converted to \<^verbatim>\<open>uint32\<close>, which keeps its low
  32 bits.
\<close>

definition encodeKV :: "byte_order \<Rightarrow> u32 \<Rightarrow> bytes \<Rightarrow> bytes \<Rightarrow> nat \<times> bytes" where
  "encodeKV bo timestamp key val =
     (headerSize + length key + length val,
      encodeHeader bo timestamp (of_nat (length key)) (of_nat (length val)) @ key @ val)"

text \<open>
  Modelled from the spec: \<^verbatim>\<open>decodeHeader\<close>, "Input: exactly header_size bytes. Output: the
  three header fields, decoded using the same fixed byte order as Encode. Fails (or
  produces undefined results) if fewer than header_size bytes are supplied": too short an
  input is the failure \<open>SliceBounds\<close>.
\<close>

definition decodeHeader :: "byte_order \<Rightarrow> bytes \<Rightarrow> error + (u32 \<times> u32 \<times> u32)" where
  "decodeHeader bo header =
     (if length header < headerSize then Inl SliceBounds
      else Inr (get_u32 bo (take 4 header),
                get_u32 bo (take 4 (drop 4 header)),
                get_u32 bo (take 4 (drop 8 header))))"

text \<open>
  Modelled from the spec: \<^verbatim>\<open>decodeKV\<close>, "Input: a full record's bytes (header + key +
  value). Output: timestamp from header, key as text, value as text, key_size/value_size
  used to split the trailing payload". An input shorter than the record its header
  announces is outside that contract; it is the failure \<open>SliceBounds\<close>, as slicing a Go
  slice beyond its length is.
\<close>

definition decodeKV :: "byte_order \<Rightarrow> bytes \<Rightarrow> error + (u32 \<times> bytes \<times> bytes)" where
  "decodeKV bo data =
     (case decodeHeader bo (take headerSize data) of
        Inl e \<Rightarrow> Inl e
      | Inr (timestamp, keySize, valueSize) \<Rightarrow>
          if length data < headerSize + unat keySize + unat valueSize then Inl SliceBounds
          else Inr (timestamp,
                    take (unat keySize) (drop headerSize data),
                    take (unat valueSize) (drop (headerSize + unat keySize) data)))"

section \<open>Files\<close>

text \<open>
  The file system maps a file name to the content of the file. A handle (\<^verbatim>\<open>*os.File\<close>) is
  the name it was opened on and whether it has been closed. The storage is taken as
  reliable: a file that exists can be opened, a write appends all its bytes, and a read
  transfers as many bytes as the buffer holds unless the file ends first.
\<close>

type_synonym filesystem = "string \<Rightarrow> bytes option"

record File =
  fname :: string
  closed :: bool

text \<open>
  \<^verbatim>\<open>f.Read(buf)\<close> at read position \<open>pos\<close> of a file with the given content: the number of
  bytes read, the error, the buffer and the new position. A read into an empty buffer
  returns \<open>0\<close> and no error; a read at or beyond the end of the file returns \<open>0\<close> and
  \<open>EOF\<close>; any other read fills a prefix of the buffer and returns no error.
\<close>

definition File_Read :: "bytes \<Rightarrow> nat \<Rightarrow> bytes \<Rightarrow> nat \<times> error option \<times> bytes \<times> nat" where
  "File_Read content pos buf =
     (if buf = [] then (0, None, buf, pos)
      else if length content \<le> pos then (0, Some EOF, buf, pos)
      else let n = min (length buf) (length content - pos)
           in (n, None, take n (drop pos content) @ drop n buf, pos + n))"

text \<open>\<^verbatim>\<open>f.Write(data)\<close> on a handle opened with \<^verbatim>\<open>O_APPEND\<close>: the new file system and the error.\<close>

definition File_Write :: "filesystem \<Rightarrow> File \<Rightarrow> bytes \<Rightarrow> filesystem \<times> error option" where
  "File_Write fs f data =
     (if closed f then (fs, Some ErrClosed)
      else case fs (fname f) of
             None \<Rightarrow> (fs, Some (IOError ''write''))
           | Some content \<Rightarrow> (fs(fname f \<mapsto> content @ data), None))"

text \<open>
  \<^verbatim>\<open>f.Sync()\<close>: whether the operating system manages to flush is not decided by the program;
  its answer \<open>syncErr\<close> is an input.
\<close>

definition File_Sync :: "File \<Rightarrow> error option \<Rightarrow> error option" where
  "File_Sync f syncErr = (if closed f then Some ErrClosed else syncErr)"

definition File_Close :: "File \<Rightarrow> File \<times> error option" where
  "File_Close f = (f\<lparr>closed := True\<rparr>, if closed f then Some ErrClosed else None)"

section \<open>The store\<close>

type_synonym keydir = "bytes \<Rightarrow> KeyEntry option"

record DiskStore =
  keyDir :: keydir
  readFileHandle :: File
  writeFileHandle :: File
  currentOffset :: u32

definition isFileExists :: "filesystem \<Rightarrow> string \<Rightarrow> bool" where
  "isFileExists fs fileName = (fs fileName \<noteq> None)"

text \<open>
  One pass through the body of the \<^verbatim>\<open>for\<close> loop of \<^verbatim>\<open>getKeyDir\<close>, from the read position
  \<open>pos\<close> of \<open>f\<close>, the local \<open>offset\<close> (a Go \<^verbatim>\<open>int\<close>) and the map built so far. \<open>Inl r\<close>: the
  loop is left and \<^verbatim>\<open>getKeyDir\<close> returns \<open>r\<close> (\<^verbatim>\<open>break\<close> returns the map with a nil error).
  \<open>Inr\<close>: the next pass starts from the new position, offset and map.
\<close>

definition getKeyDir_body ::
  "byte_order \<Rightarrow> bytes \<Rightarrow> nat \<times> int \<times> keydir \<Rightarrow> (error + keydir) + (nat \<times> int \<times> keydir)" where
  "getKeyDir_body bo content st =
     (case st of (pos, offset, kd) \<Rightarrow>
        (case File_Read content pos (make_bytes headerSize) of (n, err, headerBuffer, pos1) \<Rightarrow>
           if err = Some EOF \<or> n = 0 then Inl (Inr kd)
           else (case err of
                   Some e \<Rightarrow> Inl (Inl e)
                 | None \<Rightarrow>
                    (case decodeHeader bo headerBuffer of
                       Inl e \<Rightarrow> Inl (Inl e)
                     | Inr (timestamp, keySize, valueSize) \<Rightarrow>
                        (case File_Read content pos1 (make_bytes (unat (keySize + valueSize))) of
                           (n2, err2, kvBuffer, pos2) \<Rightarrow>
                             (case err2 of
                                Some e \<Rightarrow> Inl (Inl e)
                              | None \<Rightarrow>
                                 if n2 = 0 then Inl (Inl EOFReadingKey)
                                 else (case decodeKV bo (headerBuffer @ kvBuffer) of
                                         Inl e \<Rightarrow> Inl (Inl e)
                                       | Inr (_, key, _) \<Rightarrow>
                                          (let totalSize = of_nat headerSize + keySize + valueSize
                                           in Inr (pos2,
                                                   offset + int (unat totalSize),
                                                   kd(key \<mapsto> NewKeyEntry timestamp
                                                                 (word_of_int offset) totalSize))))))))))"

text \<open>
  The loop of \<^verbatim>\<open>getKeyDir\<close>. It ends because every pass that does not leave the loop has
  read at least one byte of the file.
\<close>

function getKeyDir_loop :: "byte_order \<Rightarrow> bytes \<Rightarrow> nat \<times> int \<times> keydir \<Rightarrow> error + keydir" where
  "getKeyDir_loop bo content st =
     (case getKeyDir_body bo content st of
        Inl r \<Rightarrow> r
      | Inr st' \<Rightarrow> getKeyDir_loop bo content st')"
  by pat_completeness auto
termination
proof (relation "measure (\<lambda>(bo, content, pos, offset, kd). length content - pos)")
  show "wf (measure (\<lambda>(bo, content, pos, offset, kd). length content - pos))"
    by simp
next
  fix bo :: byte_order and content :: bytes and st st' :: "nat \<times> int \<times> keydir"
  assume a: "getKeyDir_body bo content st = Inr st'"
  obtain pos offset kd where st: "st = (pos, offset, kd)" by (cases st)
  obtain pos' offset' kd' where st': "st' = (pos', offset', kd')" by (cases st')
  obtain n err hb pos1 where
    r1: "File_Read content pos (make_bytes headerSize) = (n, err, hb, pos1)"
    by (metis prod_cases4)
  from a st r1 have n: "n \<noteq> 0" and e: "err = None"
    by (auto simp: getKeyDir_body_def split: if_splits option.splits)
  from r1 n have p1: "pos < pos1 \<and> pos1 \<le> length content"
    by (auto simp: File_Read_def Let_def split: if_splits)
  obtain ts ks vs where dh: "decodeHeader bo hb = Inr (ts, ks, vs)"
    using a st r1 n e
    by (auto simp: getKeyDir_body_def split: if_splits option.splits sum.splits)
  obtain n2 err2 kvb pos2 where
    r2: "File_Read content pos1 (make_bytes (unat (ks + vs))) = (n2, err2, kvb, pos2)"
    by (metis prod_cases4)
  from a st st' r1 n e dh r2 have "pos' = pos2"
    by (auto simp: getKeyDir_body_def Let_def split: if_splits option.splits sum.splits)
  moreover from r2 p1 have "pos1 \<le> pos2 \<and> pos2 \<le> length content"
    by (auto simp: File_Read_def Let_def split: if_splits)
  ultimately have "length content - pos' < length content - pos" using p1 by arith
  then show "((bo, content, st'), (bo, content, st))
               \<in> measure (\<lambda>(bo, content, pos, offset, kd). length content - pos)"
    using st st' by simp
qed

declare getKeyDir_loop.simps [simp del]

text \<open>
  \<^verbatim>\<open>getKeyDir\<close>: an existing file is opened, a missing one is created empty; then the loop
  runs from position \<open>0\<close> with \<open>offset = 0\<close> and an empty map. The result is the pair the Go
  function returns, as a sum, and the file system. The deferred \<^verbatim>\<open>f.Close()\<close> is bound to \<open>f\<close>
  while it is still nil, so it closes nothing and has no part in the result.
\<close>

definition getKeyDir :: "byte_order \<Rightarrow> filesystem \<Rightarrow> string \<Rightarrow> (error + keydir) \<times> filesystem" where
  "getKeyDir bo fs fileName =
     (if isFileExists fs fileName
      then (case fs fileName of
              Some content \<Rightarrow> (getKeyDir_loop bo content (0, 0, Map.empty), fs)
            | None \<Rightarrow> (Inl (IOError ''open''), fs))
      else (getKeyDir_loop bo [] (0, 0, Map.empty), fs(fileName \<mapsto> [])))"

definition NewDiskStore :: "byte_order \<Rightarrow> filesystem \<Rightarrow> string \<Rightarrow> (error + DiskStore) \<times> filesystem" where
  "NewDiskStore bo fs fileName =
     (case getKeyDir bo fs fileName of
        (Inl err, fs') \<Rightarrow> (Inl err, fs')
      | (Inr kd, fs') \<Rightarrow>
          (Inr \<lparr>keyDir = kd,
                readFileHandle = \<lparr>fname = fileName, closed = False\<rparr>,
                writeFileHandle = \<lparr>fname = fileName, closed = False\<rparr>,
                currentOffset = 0\<rparr>, fs'))"

text \<open>
  \<^verbatim>\<open>Get\<close>. The results of \<^verbatim>\<open>Seek\<close> and \<^verbatim>\<open>Read\<close> are not looked at: whatever the read leaves in
  the buffer of \<open>Size\<close> zero bytes is decoded. The result is \<open>Inl\<close> when \<^verbatim>\<open>decodeKV\<close> panics.
\<close>

definition Get :: "byte_order \<Rightarrow> filesystem \<Rightarrow> DiskStore \<Rightarrow> bytes \<Rightarrow> error + bytes" where
  "Get bo fs d key =
     (case keyDir d key of
        None \<Rightarrow> Inr []
      | Some keyEntry \<Rightarrow>
          (let kvBuffer = make_bytes (unat (Size keyEntry));
               kvBuffer' =
                 (if closed (readFileHandle d) then kvBuffer
                  else case fs (fname (readFileHandle d)) of
                         None \<Rightarrow> kvBuffer
                       | Some content \<Rightarrow>
                           (case File_Read content (unat (Offset keyEntry)) kvBuffer of
                              (n, err, buf, pos) \<Rightarrow> buf))
           in case decodeKV bo kvBuffer' of
                Inl e \<Rightarrow> Inl e
              | Inr (_, _, val) \<Rightarrow> Inr val))"

text \<open>
  \<^verbatim>\<open>Set\<close>. \<open>now\<close> is \<^verbatim>\<open>time.Now().Unix()\<close> and \<open>syncErr\<close> the answer of the operating system to
  \<^verbatim>\<open>Sync\<close>. The result is the panic, if any, with the store and the file system as the call
  leaves them: \<open>d\<close> is a pointer, so what \<^verbatim>\<open>Set\<close> has assigned before a panic stays assigned.
\<close>

definition Set ::
  "byte_order \<Rightarrow> int \<Rightarrow> error option \<Rightarrow> filesystem \<Rightarrow> DiskStore \<Rightarrow> bytes \<Rightarrow> bytes
     \<Rightarrow> error option \<times> DiskStore \<times> filesystem" where
  "Set bo now syncErr fs d key val =
     (let timestamp = (word_of_int now :: u32);
          (totalSize, encodedKV) = encodeKV bo timestamp key val;
          d1 = d\<lparr>keyDir := (keyDir d)(key \<mapsto>
                    NewKeyEntry timestamp (currentOffset d) (of_nat totalSize))\<rparr>;
          (fs1, _) = File_Write fs (writeFileHandle d1) encodedKV;
          d2 = d1\<lparr>currentOffset := currentOffset d1 + of_nat totalSize\<rparr>
      in case File_Sync (writeFileHandle d2) syncErr of
           Some err \<Rightarrow> (Some (FailedToSync err), d2, fs1)
         | None \<Rightarrow> (None, d2, fs1))"

text \<open>\<^verbatim>\<open>Close\<close>: both handles are closed, what closing them returns is dropped.\<close>

definition Close :: "DiskStore \<Rightarrow> bool \<times> DiskStore" where
  "Close d =
     (let (r, _) = File_Close (readFileHandle d);
          (w, _) = File_Close (writeFileHandle d)
      in (True, d\<lparr>readFileHandle := r, writeFileHandle := w\<rparr>))"

section \<open>Sessions\<close>

text \<open>
  The statements below speak of sequences of calls. A call of \<^verbatim>\<open>Set\<close> is given by the time
  at which it is made, the key and the value.
\<close>

type_synonym set_call = "int \<times> bytes \<times> bytes"

text \<open>The record a call appends to the log, and the size \<^verbatim>\<open>encodeKV\<close> reports for it.\<close>

fun encoded :: "byte_order \<Rightarrow> set_call \<Rightarrow> bytes" where
  "encoded bo (now, key, val) = snd (encodeKV bo (word_of_int now) key val)"

fun encoded_size :: "byte_order \<Rightarrow> set_call \<Rightarrow> nat" where
  "encoded_size bo (now, key, val) = fst (encodeKV bo (word_of_int now) key val)"

definition log_of :: "byte_order \<Rightarrow> set_call list \<Rightarrow> bytes" where
  "log_of bo calls = concat (map (encoded bo) calls)"

definition call_key :: "set_call \<Rightarrow> bytes" where
  "call_key c = fst (snd c)"

text \<open>
  A sequence of calls of \<^verbatim>\<open>Set\<close>, each of whose flushes succeeds; a panic ends the sequence.
\<close>

fun Set_all ::
  "byte_order \<Rightarrow> set_call list \<Rightarrow> DiskStore \<times> filesystem
     \<Rightarrow> error option \<times> DiskStore \<times> filesystem" where
  "Set_all bo [] (d, fs) = (None, d, fs)"
| "Set_all bo ((now, key, val) # calls) (d, fs) =
     (case Set bo now None fs d key val of
        (Some e, d', fs') \<Rightarrow> (Some e, d', fs')
      | (None, d', fs') \<Rightarrow> Set_all bo calls (d', fs'))"

text \<open>
  The index that a sequence of records determines when the first of them starts at
  \<open>offset\<close>: every record overwrites the entry of its key. Both a session of \<^verbatim>\<open>Set\<close> calls
  and the recovery scan are compared with it.
\<close>

fun replay :: "byte_order \<Rightarrow> u32 \<Rightarrow> set_call list \<Rightarrow> keydir \<Rightarrow> keydir" where
  "replay bo offset [] kd = kd"
| "replay bo offset ((now, key, val) # calls) kd =
     replay bo (offset + of_nat (encoded_size bo (now, key, val))) calls
       (kd(key \<mapsto> NewKeyEntry (word_of_int now) offset
                    (of_nat (encoded_size bo (now, key, val)))))"

text \<open>
  A record the recovery scan can read back: key and value are not both empty, and their
  lengths and the sum of their lengths fit the 32-bit size fields.
\<close>

fun readable :: "set_call \<Rightarrow> bool" where
  "readable (now, key, val) = (0 < length key + length val \<and> length key + length val < 2 ^ 32)"

text \<open>
  A session: the store is opened on \<open>fileName\<close> and the calls are made. The result is the
  store the session ends with, or the error or panic that ended it, and the file system.
\<close>

definition session ::
  "byte_order \<Rightarrow> filesystem \<Rightarrow> string \<Rightarrow> set_call list \<Rightarrow> (error + DiskStore) \<times> filesystem" where
  "session bo fs fileName calls =
     (case NewDiskStore bo fs fileName of
        (Inl e, fs0) \<Rightarrow> (Inl e, fs0)
      | (Inr d0, fs0) \<Rightarrow>
          (case Set_all bo calls (d0, fs0) of
             (Some e, d, fs') \<Rightarrow> (Inl e, fs')
           | (None, d, fs') \<Rightarrow> (Inr d, fs')))"

text \<open>The store of a session is closed and a new store is opened on the same file.\<close>

definition reopen ::
  "byte_order \<Rightarrow> string \<Rightarrow> (error + DiskStore) \<times> filesystem \<Rightarrow> (error + DiskStore) \<times> filesystem" where
  "reopen bo fileName r =
     (case r of
        (Inl e, fs) \<Rightarrow> (Inl e, fs)
      | (Inr d, fs) \<Rightarrow> (case Close d of (ok, d') \<Rightarrow> NewDiskStore bo fs fileName))"

text \<open>What \<^verbatim>\<open>Get\<close> returns in the state a session has reached, and the index entry of a key there.\<close>

definition get_in :: "byte_order \<Rightarrow> (error + DiskStore) \<times> filesystem \<Rightarrow> bytes \<Rightarrow> error + bytes" where
  "get_in bo r key = (case r of (Inl e, fs) \<Rightarrow> Inl e | (Inr d, fs) \<Rightarrow> Get bo fs d key)"

definition entry_in :: "(error + DiskStore) \<times> filesystem \<Rightarrow> bytes \<Rightarrow> KeyEntry option" where
  "entry_in r key = (case r of (Inl e, fs) \<Rightarrow> None | (Inr d, fs) \<Rightarrow> keyDir d key)"

text \<open>The store is opened "on an empty file": the file is empty, or missing and then created.\<close>

definition empty_file :: "filesystem \<Rightarrow> string \<Rightarrow> bool" where
  "empty_file fs fileName = (fs fileName = None \<or> fs fileName = Some [])"


section \<open>The codec\<close>

lemma u32_of_its_bytes:
  "ucast (ucast w :: byte) OR push_bit 8 (ucast (ucast (drop_bit 8 w) :: byte)) OR
     push_bit 16 (ucast (ucast (drop_bit 16 w) :: byte)) OR
     push_bit 24 (ucast (ucast (drop_bit 24 w) :: byte)) = (w :: u32)"
proof (rule bit_word_eqI)
  fix n assume "n < LENGTH(32)"
  then have n: "n < 32" by simp
  have a: "8 + (n - 8) = n" if "8 \<le> n" using that by simp
  have b: "16 + (n - 16) = n" if "16 \<le> n" using that by simp
  have c: "24 + (n - 24) = n" if "24 \<le> n" using that by simp
  consider "n < 8" | "8 \<le> n" "n < 16" | "16 \<le> n" "n < 24" | "24 \<le> n" by linarith
  then show "bit (ucast (ucast w :: byte) OR push_bit 8 (ucast (ucast (drop_bit 8 w) :: byte)) OR
                 push_bit 16 (ucast (ucast (drop_bit 16 w) :: byte)) OR
                 push_bit 24 (ucast (ucast (drop_bit 24 w) :: byte)) :: u32) n = bit w n"
    using n by cases (auto simp add: bit_simps a b c)
qed

lemma get_put_u32_le: "get_u32_le (put_u32_le w) = w"
  by (simp add: get_u32_le_def put_u32_le_def u32_of_its_bytes)

lemma get_put_u32 [simp]: "get_u32 bo (put_u32 bo w) = w"
  by (cases bo) (simp_all add: get_put_u32_le)

lemma length_put_u32 [simp]: "length (put_u32 bo w) = 4"
  by (cases bo) (simp_all add: put_u32_le_def)

lemma length_encodeHeader [simp]: "length (encodeHeader bo t ks vs) = 12"
  by (simp add: encodeHeader_def)

lemma decodeHeader_encodeHeader [simp]:
  "decodeHeader bo (encodeHeader bo t ks vs) = Inr (t, ks, vs)"
  by (simp add: decodeHeader_def encodeHeader_def headerSize_def)

lemma unat_of_nat_u32: "n < 2 ^ 32 \<Longrightarrow> unat (of_nat n :: u32) = n"
  by (simp add: unat_of_nat)

lemma decodeKV_record:
  assumes "length key < 2 ^ 32" and "length val < 2 ^ 32"
  shows "decodeKV bo (encodeHeader bo t (of_nat (length key)) (of_nat (length val))
                        @ key @ val @ rest)
           = Inr (t, key, val)"
  using assms by (simp add: decodeKV_def headerSize_def unat_of_nat_u32)

text \<open>
  C1 (as amended). Decoding what \<^verbatim>\<open>encodeKV\<close> produced gives back the timestamp, the key
  and the value, for every timestamp and every key and value whose lengths fit the 32-bit
  size fields of the header, whatever their bytes: an empty value, an empty key, zero
  bytes and multi-byte text included.
\<close>

theorem decode_encode_roundtrip:
  assumes "length key < 2 ^ 32" and "length val < 2 ^ 32"
  shows "decodeKV bo (snd (encodeKV bo t key val)) = Inr (t, key, val)"
  using decodeKV_record [OF assms, of bo t "[]"] by (simp add: encodeKV_def)

theorem decode_encode_roundtrip_witness:
  "decodeKV BigEndian (snd (encodeKV BigEndian 7 [] [0, 195, 169])) = Inr (7, [], [0, 195, 169])"
  using decode_encode_roundtrip [of "[]" "[0, 195, 169]" BigEndian 7] by simp

text \<open>
  C1 as stated, for every key, fails: a key of \<open>2 ^ 32\<close> bytes is written with the key size
  \<open>0\<close>, and decoding returns the empty key.
\<close>

theorem decode_encode_oversize_counterexample:
  "decodeKV LittleEndian (snd (encodeKV LittleEndian 0 (replicate (2 ^ 32) 0) []))
     \<noteq> Inr (0, replicate (2 ^ 32) 0, [])"
  by (simp add: encodeKV_def decodeKV_def headerSize_def)

section \<open>The log and the index\<close>

lemma encoded_size_eq:
  "encoded_size bo (now, key, val) = 12 + length key + length val"
  by (simp add: encodeKV_def headerSize_def)

lemma length_encoded: "length (encoded bo call) = encoded_size bo call"
  by (cases call) (simp add: encodeKV_def headerSize_def)

declare encoded.simps [simp del] encoded_size.simps [simp del]

lemma log_of_Nil [simp]: "log_of bo [] = []"
  by (simp add: log_of_def)

lemma log_of_Cons [simp]: "log_of bo (c # calls) = encoded bo c @ log_of bo calls"
  by (simp add: log_of_def)

lemma log_of_append [simp]: "log_of bo (xs @ ys) = log_of bo xs @ log_of bo ys"
  by (simp add: log_of_def)


lemma Set_flushed:
  assumes "\<not> closed (writeFileHandle d)" and "fs (fname (writeFileHandle d)) = Some c"
  shows "Set bo now None fs d key val =
           (None,
            d\<lparr>keyDir := (keyDir d)(key \<mapsto> NewKeyEntry (word_of_int now) (currentOffset d)
                                         (of_nat (encoded_size bo (now, key, val)))),
              currentOffset := currentOffset d + of_nat (encoded_size bo (now, key, val))\<rparr>,
            fs(fname (writeFileHandle d) \<mapsto> c @ encoded bo (now, key, val)))"
  using assms
  by (simp add: Set_def File_Write_def File_Sync_def encodeKV_def headerSize_def Let_def
        encoded.simps encoded_size.simps)

lemma Set_all_flushed:
  assumes "\<not> closed (writeFileHandle d)" and "fs (fname (writeFileHandle d)) = Some c"
  shows "Set_all bo calls (d, fs) =
           (None,
            d\<lparr>keyDir := replay bo (currentOffset d) calls (keyDir d),
              currentOffset := currentOffset d + of_nat (sum_list (map (encoded_size bo) calls))\<rparr>,
            fs(fname (writeFileHandle d) \<mapsto> c @ log_of bo calls))"
  using assms
proof (induction calls arbitrary: d fs c)
  case Nil
  then show ?case by (simp add: fun_upd_idem)
next
  case (Cons call calls)
  obtain now key val where call: "call = (now, key, val)" by (cases call)
  let ?d = "d\<lparr>keyDir := (keyDir d)(key \<mapsto> NewKeyEntry (word_of_int now) (currentOffset d)
                                         (of_nat (encoded_size bo (now, key, val)))),
              currentOffset := currentOffset d + of_nat (encoded_size bo (now, key, val))\<rparr>"
  let ?fs = "fs(fname (writeFileHandle d) \<mapsto> c @ encoded bo (now, key, val))"
  have step: "Set bo now None fs d key val = (None, ?d, ?fs)"
    using Cons.prems by (rule Set_flushed)
  have "Set_all bo (call # calls) (d, fs) = Set_all bo calls (?d, ?fs)"
    by (simp add: call step)
  also have "\<dots> =
           (None,
            ?d\<lparr>keyDir := replay bo (currentOffset ?d) calls (keyDir ?d),
              currentOffset := currentOffset ?d + of_nat (sum_list (map (encoded_size bo) calls))\<rparr>,
            ?fs(fname (writeFileHandle ?d) \<mapsto> (c @ encoded bo (now, key, val)) @ log_of bo calls))"
    using Cons.prems by (intro Cons.IH) simp_all
  also have "\<dots> =
           (None,
            d\<lparr>keyDir := replay bo (currentOffset d) (call # calls) (keyDir d),
              currentOffset := currentOffset d
                                 + of_nat (sum_list (map (encoded_size bo) (call # calls)))\<rparr>,
            fs(fname (writeFileHandle d) \<mapsto> c @ log_of bo (call # calls)))"
    by (simp add: call add.assoc)
  finally show ?case .
qed

lemma File_Read_inside:
  assumes "pos = length pre" and "length xs = n" and "0 < n"
  shows "File_Read (pre @ xs @ rest) pos (make_bytes n) = (n, None, xs, pos + n)"
  using assms by (auto simp: File_Read_def make_bytes_def Let_def)

lemma File_Read_at_end:
  assumes "length content \<le> pos" and "0 < n"
  shows "File_Read content pos (make_bytes n) = (0, Some EOF, make_bytes n, pos)"
  using assms by (auto simp: File_Read_def make_bytes_def)

lemma word_of_int_advance:
  "(word_of_int (offset + int (unat (w :: u32))) :: u32) = word_of_int offset + w"
  by simp

lemma getKeyDir_body_record:
  assumes "readable (now, key, val)"
  shows "getKeyDir_body bo (pre @ encoded bo (now, key, val) @ rest) (length pre, offset, kd) =
           Inr (length pre + encoded_size bo (now, key, val),
                offset + int (unat (of_nat (encoded_size bo (now, key, val)) :: u32)),
                kd(key \<mapsto> NewKeyEntry (word_of_int now) (word_of_int offset)
                              (of_nat (encoded_size bo (now, key, val)))))"
proof -
  let ?h = "encodeHeader bo (word_of_int now) (of_nat (length key)) (of_nat (length val))"
  from assms have lk: "length key < 2 ^ 32" and lv: "length val < 2 ^ 32"
    and pos: "0 < length key + length val" and sum: "length key + length val < 2 ^ 32"
    by simp_all
  have enc: "encoded bo (now, key, val) = ?h @ key @ val"
    by (simp add: encoded.simps encodeKV_def)
  have r1: "File_Read (pre @ ?h @ key @ val @ rest) (length pre) (make_bytes 12)
              = (12, None, ?h, length pre + 12)"
    using File_Read_inside [of "length pre" pre ?h 12 "key @ val @ rest"]
    by simp
  have n: "unat (of_nat (length key) + of_nat (length val) :: u32) = length key + length val"
    using sum unat_of_nat_u32 [of "length key + length val"] by simp
  have r2: "File_Read (pre @ ?h @ key @ val @ rest) (length pre + 12)
              (make_bytes (length key + length val))
              = (length key + length val, None, key @ val, length pre + 12 + (length key + length val))"
    using File_Read_inside [of "length pre + 12" "pre @ ?h" "key @ val" "length key + length val" rest] pos
    by simp
  have dk: "decodeKV bo (?h @ key @ val) = Inr (word_of_int now, key, val)"
    using decodeKV_record [OF lk lv, of bo "word_of_int now" "[]"] by simp
  show ?thesis
    using pos
    by (simp add: getKeyDir_body_def enc r1 n r2 dk encoded_size_eq headerSize_def add.assoc Let_def)
qed

lemma getKeyDir_body_end:
  "getKeyDir_body bo content (length content, offset, kd) = Inl (Inr kd)"
  by (simp add: getKeyDir_body_def File_Read_at_end headerSize_def)

lemma getKeyDir_loop_log:
  assumes "\<forall>c \<in> set calls. readable c"
  shows "getKeyDir_loop bo (pre @ log_of bo calls) (length pre, offset, kd) =
           Inr (replay bo (word_of_int offset) calls kd)"
  using assms
proof (induction calls arbitrary: pre offset kd)
  case Nil
  show ?case
    using getKeyDir_body_end [of bo pre offset kd]
    by (simp add: getKeyDir_loop.simps [of bo pre])
next
  case (Cons call calls)
  obtain now key val where call: "call = (now, key, val)" by (cases call)
  let ?sz = "encoded_size bo (now, key, val)"
  let ?kd = "kd(key \<mapsto> NewKeyEntry (word_of_int now) (word_of_int offset) (of_nat ?sz))"
  let ?off = "offset + int (unat (of_nat ?sz :: u32))"
  let ?content = "pre @ encoded bo call @ log_of bo calls"
  from Cons.prems call have rd: "readable (now, key, val)" by simp
  have body: "getKeyDir_body bo ?content (length pre, offset, kd)
                = Inr (length pre + ?sz, ?off, ?kd)"
    using getKeyDir_body_record [OF rd, of bo pre "log_of bo calls" offset kd]
    by (simp add: call)
  have "getKeyDir_loop bo (pre @ log_of bo (call # calls)) (length pre, offset, kd)
          = getKeyDir_loop bo ?content (length pre + ?sz, ?off, ?kd)"
    by (subst getKeyDir_loop.simps) (simp add: body)
  also have "\<dots> = getKeyDir_loop bo ((pre @ encoded bo call) @ log_of bo calls)
                      (length (pre @ encoded bo call), ?off, ?kd)"
    by (simp add: call length_encoded)
  also have "\<dots> = Inr (replay bo (word_of_int ?off) calls ?kd)"
    using Cons.prems by (intro Cons.IH) simp
  also have "\<dots> = Inr (replay bo (word_of_int offset) (call # calls) kd)"
    by (simp add: call)
  finally show ?case .
qed


lemma replay_other:
  "key \<notin> call_key ` set calls \<Longrightarrow> replay bo offset calls kd key = kd key"
  by (induction calls arbitrary: offset kd) (auto simp: call_key_def)


lemma getKeyDir_empty: "getKeyDir_loop bo [] (0, 0, kd) = Inr kd"
  using getKeyDir_body_end [of bo "[]" 0 kd] by (simp add: getKeyDir_loop.simps [of bo "[]"])

lemma NewDiskStore_empty_file:
  assumes "empty_file fs fileName"
  shows "NewDiskStore bo fs fileName =
           (Inr \<lparr>keyDir = Map.empty,
                 readFileHandle = \<lparr>fname = fileName, closed = False\<rparr>,
                 writeFileHandle = \<lparr>fname = fileName, closed = False\<rparr>,
                 currentOffset = 0\<rparr>,
            fs(fileName \<mapsto> []))"
  using assms
  by (auto simp: empty_file_def NewDiskStore_def getKeyDir_def isFileExists_def getKeyDir_empty
        fun_upd_idem)

lemma NewDiskStore_log:
  assumes "fs fileName = Some (log_of bo calls)" and "\<forall>c \<in> set calls. readable c"
  shows "NewDiskStore bo fs fileName =
           (Inr \<lparr>keyDir = replay bo 0 calls Map.empty,
                 readFileHandle = \<lparr>fname = fileName, closed = False\<rparr>,
                 writeFileHandle = \<lparr>fname = fileName, closed = False\<rparr>,
                 currentOffset = 0\<rparr>,
            fs)"
  using assms getKeyDir_loop_log [of calls bo "[]" 0 Map.empty]
  by (simp add: NewDiskStore_def getKeyDir_def isFileExists_def)

lemma session_empty_file:
  assumes "empty_file fs fileName"
  shows "session bo fs fileName calls =
           (Inr \<lparr>keyDir = replay bo 0 calls Map.empty,
                 readFileHandle = \<lparr>fname = fileName, closed = False\<rparr>,
                 writeFileHandle = \<lparr>fname = fileName, closed = False\<rparr>,
                 currentOffset = of_nat (sum_list (map (encoded_size bo) calls))\<rparr>,
            fs(fileName \<mapsto> log_of bo calls))"
  using Set_all_flushed [of "\<lparr>keyDir = Map.empty,
                 readFileHandle = \<lparr>fname = fileName, closed = False\<rparr>,
                 writeFileHandle = \<lparr>fname = fileName, closed = False\<rparr>,
                 currentOffset = 0\<rparr>" "fs(fileName \<mapsto> [])" "[]" bo calls]
  by (simp add: session_def NewDiskStore_empty_file [OF assms])


lemma Get_record:
  assumes "keyDir d k = Some e"
    and "\<not> closed (readFileHandle d)"
    and "fs (fname (readFileHandle d)) = Some (pre @ encoded bo (now, key, val) @ rest)"
    and "unat (Offset e) = length pre"
    and "unat (Size e) = encoded_size bo (now, key, val)"
    and "length key < 2 ^ 32" and "length val < 2 ^ 32"
  shows "Get bo fs d k = Inr val"
proof -
  let ?rec = "encoded bo (now, key, val)"
  have len: "length ?rec = 12 + length key + length val"
    by (simp add: length_encoded encoded_size_eq)
  have rd: "File_Read (pre @ ?rec @ rest) (length pre) (make_bytes (12 + length key + length val))
              = (12 + length key + length val, None, ?rec, length pre + (12 + length key + length val))"
    using File_Read_inside [of "length pre" pre ?rec "12 + length key + length val" rest] len
    by simp
  have dk: "decodeKV bo ?rec = Inr (word_of_int now, key, val)"
    using decodeKV_record [OF assms(6,7), of bo "word_of_int now" "[]"]
    by (simp add: encoded.simps encodeKV_def)
  show ?thesis
    using assms(1-5) by (simp add: Get_def encoded_size_eq rd dk)
qed

section \<open>Last write wins\<close>




section \<open>Durability across reopen\<close>




text \<open>
  The record of an empty key with an empty value is left out of C3 as amended. Reading its
  payload reads no bytes, which the scan takes for the end of the file in the middle of a
  record: the store cannot be opened again.
\<close>

lemma reopen_empty_record_fails:
  "fst (reopen bo ''db'' (session bo Map.empty ''db'' [(now, [], [])])) = Inl EOFReadingKey"
  by (simp add: session_empty_file empty_file_def reopen_def Close_def File_Close_def
        NewDiskStore_def getKeyDir_def isFileExists_def getKeyDir_loop.simps getKeyDir_body_def
        File_Read_def make_bytes_def headerSize_def encoded.simps encodeKV_def Let_def)

section \<open>Offset accounting\<close>





section \<open>The session counter\<close>

lemma NewDiskStore_opened:
  assumes "NewDiskStore bo fs fileName = (Inr d, fs')"
  shows "currentOffset d = 0 \<and> writeFileHandle d = \<lparr>fname = fileName, closed = False\<rparr>
         \<and> readFileHandle d = \<lparr>fname = fileName, closed = False\<rparr>
         \<and> fs' fileName = Some (case fs fileName of None \<Rightarrow> [] | Some content \<Rightarrow> content)"
  using assms
  by (auto simp: NewDiskStore_def getKeyDir_def isFileExists_def
           split: if_splits sum.splits option.splits prod.splits)

text \<open>
  C6. Whenever \<^verbatim>\<open>NewDiskStore\<close> succeeds, on an empty or a non-empty file, the store it
  returns has \<open>currentOffset = 0\<close>. The next \<^verbatim>\<open>Set\<close> therefore records the offset \<open>0\<close> for its
  key, while its record is appended after all of the content the file already had.
\<close>

theorem counter_starts_at_zero:
  assumes "NewDiskStore bo fs fileName = (Inr d, fs')"
  shows "currentOffset d = 0
         \<and> (\<exists>content. fs' fileName = Some content
              \<and> fst (Set bo now None fs' d key val) = None
              \<and> map_option Offset (keyDir (fst (snd (Set bo now None fs' d key val))) key) = Some 0
              \<and> snd (snd (Set bo now None fs' d key val)) fileName
                  = Some (content @ encoded bo (now, key, val)))"
proof -
  let ?content = "case fs fileName of None \<Rightarrow> [] | Some content \<Rightarrow> content"
  from NewDiskStore_opened [OF assms]
  have z: "currentOffset d = 0"
    and w: "\<not> closed (writeFileHandle d)" "fname (writeFileHandle d) = fileName"
    and f: "fs' fileName = Some ?content"
    by simp_all
  from w f have c: "fs' (fname (writeFileHandle d)) = Some ?content" by simp
  have "Set bo now None fs' d key val =
           (None,
            d\<lparr>keyDir := (keyDir d)(key \<mapsto> NewKeyEntry (word_of_int now) (currentOffset d)
                                         (of_nat (encoded_size bo (now, key, val)))),
              currentOffset := currentOffset d + of_nat (encoded_size bo (now, key, val))\<rparr>,
            fs'(fname (writeFileHandle d) \<mapsto> ?content @ encoded bo (now, key, val)))"
    using w(1) c by (rule Set_flushed)
  with z w f show ?thesis by (simp add: NewKeyEntry_def)
qed

theorem counter_starts_at_zero_witness:
  "\<exists>d fs'. NewDiskStore LittleEndian [''db'' \<mapsto> log_of LittleEndian [(1, [107], [1])]] ''db''
             = (Inr d, fs')
           \<and> currentOffset d = 0
           \<and> map_option Offset
               (keyDir (fst (snd (Set LittleEndian 2 None fs' d [108] [9]))) [108]) = Some 0
           \<and> snd (snd (Set LittleEndian 2 None fs' d [108] [9])) ''db''
               = Some (log_of LittleEndian [(1, [107], [1])] @ encoded LittleEndian (2, [108], [9]))"
proof -
  let ?fs = "[''db'' \<mapsto> log_of LittleEndian [(1, [107], [1])]]"
  let ?d = "\<lparr>keyDir = replay LittleEndian 0 [(1, [107], [1])] Map.empty,
             readFileHandle = \<lparr>fname = ''db'', closed = False\<rparr>,
             writeFileHandle = \<lparr>fname = ''db'', closed = False\<rparr>,
             currentOffset = 0\<rparr>"
  have h: "NewDiskStore LittleEndian ?fs ''db'' = (Inr ?d, ?fs)"
    by (rule NewDiskStore_log) simp_all
  from counter_starts_at_zero [OF h, of 2 "[108]" "[9]"] h show ?thesis
    by (intro exI [of _ ?d] exI [of _ ?fs]) simp
qed

section \<open>Missing keys\<close>

lemma session_log:
  assumes "fs fileName = Some (log_of bo written)" and "\<forall>c \<in> set written. readable c"
  shows "session bo fs fileName calls =
           (Inr \<lparr>keyDir = replay bo 0 calls (replay bo 0 written Map.empty),
                 readFileHandle = \<lparr>fname = fileName, closed = False\<rparr>,
                 writeFileHandle = \<lparr>fname = fileName, closed = False\<rparr>,
                 currentOffset = of_nat (sum_list (map (encoded_size bo) calls))\<rparr>,
            fs(fileName \<mapsto> log_of bo written @ log_of bo calls))"
  using Set_all_flushed [of "\<lparr>keyDir = replay bo 0 written Map.empty,
                 readFileHandle = \<lparr>fname = fileName, closed = False\<rparr>,
                 writeFileHandle = \<lparr>fname = fileName, closed = False\<rparr>,
                 currentOffset = 0\<rparr>" fs "log_of bo written" bo calls]
        NewDiskStore_log [of fs fileName bo written] assms
  by (simp add: session_def)

lemma Get_not_installed: "keyDir d key = None \<Longrightarrow> Get bo fs d key = Inr []"
  by (simp add: Get_def)

text \<open>
  C7. \<^verbatim>\<open>Get\<close> on a key that is not in the index returns the empty string and does not
  fail, in every store. In particular a key that is neither in the log the store was
  opened on nor among the keys \<^verbatim>\<open>Set\<close> in the session is not in the index. The result is the
  one \<^verbatim>\<open>Get\<close> returns for a key whose stored value is the empty string.
\<close>

theorem get_missing_key:
  assumes "fs fileName = Some (log_of bo written)" and "\<forall>c \<in> set written. readable c"
    and "key \<notin> call_key ` set written" and "key \<notin> call_key ` set calls"
    and "empty_file fs0 fileName0" and "length key' + 12 < 2 ^ 32"
  shows "get_in bo (session bo fs fileName calls) key = Inr []
         \<and> entry_in (session bo fs fileName calls) key = None
         \<and> get_in bo (session bo fs0 fileName0 [(now, key', [])]) key' = Inr []
         \<and> (\<forall>d fs'. keyDir d key = None \<longrightarrow> Get bo fs' d key = Inr [])"
proof -
  have none: "replay bo 0 calls (replay bo 0 written Map.empty) key = None"
    using assms(3,4) by (simp add: replay_other)
  have a: "get_in bo (session bo fs fileName calls) key = Inr []"
    and b: "entry_in (session bo fs fileName calls) key = None"
    using none session_log [of fs fileName bo written calls] assms(1,2)
    by (simp_all add: get_in_def entry_in_def Get_def)
  have c: "get_in bo (session bo fs0 fileName0 [(now, key', [])]) key' = Inr []"
  proof -
    let ?e = "NewKeyEntry (word_of_int now) 0 (of_nat (encoded_size bo (now, key', [])))"
    let ?d = "\<lparr>keyDir = replay bo 0 [(now, key', [])] Map.empty,
               readFileHandle = \<lparr>fname = fileName0, closed = False\<rparr>,
               writeFileHandle = \<lparr>fname = fileName0, closed = False\<rparr>,
               currentOffset = of_nat (sum_list (map (encoded_size bo) [(now, key', [])]))\<rparr>"
    let ?fs = "fs0(fileName0 \<mapsto> log_of bo [(now, key', [])])"
    have s: "session bo fs0 fileName0 [(now, key', [])] = (Inr ?d, ?fs)"
      using assms(5) by (rule session_empty_file)
    have entry: "keyDir ?d key' = Some ?e" by simp
    have sz: "unat (Size ?e) = encoded_size bo (now, key', [])"
      using assms(6) unat_of_nat_u32 [of "encoded_size bo (now, key', [])"]
      by (simp add: NewKeyEntry_def encoded_size_eq)
    have off: "unat (Offset ?e) = length ([] :: bytes)" by (simp add: NewKeyEntry_def)
    have content: "?fs (fname (readFileHandle ?d)) = Some ([] @ encoded bo (now, key', []) @ [])"
      by simp
    from assms(6) have lk: "length key' < 2 ^ 32" by simp
    have "Get bo ?fs ?d key' = Inr []"
      using entry _ content off sz lk by (rule Get_record) simp_all
    then show ?thesis unfolding s by (simp add: get_in_def)
  qed
  from a b c show ?thesis by (simp add: Get_not_installed)
qed

theorem get_missing_key_witness:
  "get_in LittleEndian
     (session LittleEndian [''db'' \<mapsto> log_of LittleEndian [(1, [107], [1])]] ''db''
        [(2, [108], [9])]) [109] = Inr []
   \<and> get_in LittleEndian (session LittleEndian Map.empty ''db2'' [(3, [110], [])]) [110] = Inr []
   \<and> Get LittleEndian Map.empty
         \<lparr>keyDir = [[107] \<mapsto> \<lparr>Timestamp = 1, Offset = 0, Size = 14\<rparr>],
          readFileHandle = \<lparr>fname = ''db'', closed = False\<rparr>,
          writeFileHandle = \<lparr>fname = ''db'', closed = False\<rparr>,
          currentOffset = 0\<rparr> [109] = Inr []"
  using get_missing_key [of "[''db'' \<mapsto> log_of LittleEndian [(1, [107], [1])]]" "''db''"
                            LittleEndian "[(1, [107], [1])]" "[109]" "[(2, [108], [9])]"
                            Map.empty "''db2''" "[110]" 3]
  by (simp add: empty_file_def call_key_def)

section \<open>Short reads in Get\<close>

lemma File_Read_short:
  assumes "length xs = n" and "0 < n" and "n \<le> k"
  shows "File_Read (pre @ xs) (length pre) (make_bytes k)
           = (n, None, xs @ replicate (k - n) 0, length pre + n)"
  using assms by (auto simp: File_Read_def make_bytes_def Let_def min_def)




section \<open>Flush failures\<close>


section \<open>Close\<close>

text \<open>
  C10. \<^verbatim>\<open>Close\<close> returns \<open>true\<close> for every store. It does so too when closing the handles
  fails: on a store that is closed already both handles report \<open>ErrClosed\<close>, and \<^verbatim>\<open>Close\<close>
  still returns \<open>true\<close>.
\<close>

theorem close_reports_success:
  "fst (Close d) = True
   \<and> closed (readFileHandle (snd (Close d))) \<and> closed (writeFileHandle (snd (Close d)))
   \<and> snd (File_Close (readFileHandle (snd (Close d)))) = Some ErrClosed
   \<and> snd (File_Close (writeFileHandle (snd (Close d)))) = Some ErrClosed
   \<and> fst (Close (snd (Close d))) = True"
  by (simp add: Close_def File_Close_def)

section \<open>Truncated logs\<close>

lemma getKeyDir_loop_prefix:
  assumes "\<forall>c \<in> set calls. readable c"
  shows "\<exists>offset'.
           getKeyDir_loop bo (pre @ log_of bo calls @ rest) (length pre, offset, kd)
             = getKeyDir_loop bo (pre @ log_of bo calls @ rest)
                 (length pre + length (log_of bo calls), offset',
                  replay bo (word_of_int offset) calls kd)
           \<and> (word_of_int offset' :: u32) = word_of_int offset + of_nat (length (log_of bo calls))"
  using assms
proof (induction calls arbitrary: pre offset kd)
  case Nil
  show ?case by (intro exI [of _ offset]) simp
next
  case (Cons call calls)
  obtain now key val where call: "call = (now, key, val)" by (cases call)
  let ?sz = "encoded_size bo (now, key, val)"
  let ?kd = "kd(key \<mapsto> NewKeyEntry (word_of_int now) (word_of_int offset) (of_nat ?sz))"
  let ?off = "offset + int (unat (of_nat ?sz :: u32))"
  let ?content = "pre @ encoded bo call @ log_of bo calls @ rest"
  from Cons.prems call have rd: "readable (now, key, val)" by simp
  have body: "getKeyDir_body bo ?content (length pre, offset, kd)
                = Inr (length pre + ?sz, ?off, ?kd)"
    using getKeyDir_body_record [OF rd, of bo pre "log_of bo calls @ rest" offset kd]
    by (simp add: call)
  have step: "getKeyDir_loop bo ?content (length pre, offset, kd)
          = getKeyDir_loop bo ?content (length pre + ?sz, ?off, ?kd)"
    by (subst getKeyDir_loop.simps) (simp add: body)
  let ?pre = "pre @ encoded bo call"
  from Cons.prems have "\<forall>c \<in> set calls. readable c" by simp
  then have "\<exists>offset'.
           getKeyDir_loop bo (?pre @ log_of bo calls @ rest) (length ?pre, ?off, ?kd)
             = getKeyDir_loop bo (?pre @ log_of bo calls @ rest)
                 (length ?pre + length (log_of bo calls), offset',
                  replay bo (word_of_int ?off) calls ?kd)
           \<and> (word_of_int offset' :: u32) = word_of_int ?off + of_nat (length (log_of bo calls))"
    by (rule Cons.IH)
  then obtain offset' where
    ih: "getKeyDir_loop bo (?pre @ log_of bo calls @ rest) (length ?pre, ?off, ?kd)
           = getKeyDir_loop bo (?pre @ log_of bo calls @ rest)
               (length ?pre + length (log_of bo calls), offset',
                replay bo (word_of_int ?off) calls ?kd)"
    and w: "(word_of_int offset' :: u32) = word_of_int ?off + of_nat (length (log_of bo calls))"
    by blast
  have "getKeyDir_loop bo (pre @ log_of bo (call # calls) @ rest) (length pre, offset, kd)
          = getKeyDir_loop bo (pre @ log_of bo (call # calls) @ rest)
              (length pre + length (log_of bo (call # calls)), offset',
               replay bo (word_of_int offset) (call # calls) kd)"
    using step ih by (simp add: call length_encoded add.assoc)
  moreover have "(word_of_int offset' :: u32)
                   = word_of_int offset + of_nat (length (log_of bo (call # calls)))"
    using w by (simp add: call length_encoded add.assoc)
  ultimately show ?case by blast
qed

lemma getKeyDir_loop_end:
  "getKeyDir_loop bo content (length content, offset, kd) = Inr kd"
  by (subst getKeyDir_loop.simps) (simp add: getKeyDir_body_end)

lemma decodeKV_payload:
  assumes "lk + lv < 2 ^ 32" and "length payload = lk + lv"
  shows "decodeKV bo (encodeHeader bo t (of_nat lk) (of_nat lv) @ payload)
           = Inr (t, take lk payload, drop lk payload)"
proof -
  from assms(1) have "lk < 2 ^ 32" and "lv < 2 ^ 32" by simp_all
  then show ?thesis
    using assms(2) by (simp add: decodeKV_def headerSize_def unat_of_nat_u32)
qed

text \<open>
  A log of whole records followed by a record that is cut somewhere inside its payload,
  after at least one byte of it: the scan accepts the file.
\<close>

lemma cut_payload_accepted:
  assumes "\<forall>c \<in> set calls. readable c" and "readable (now, key, val)"
    and "12 < m" and "m < encoded_size bo (now, key, val)"
    and "fs fileName = Some (log_of bo calls @ take m (encoded bo (now, key, val)))"
  shows "\<exists>d. NewDiskStore bo fs fileName = (Inr d, fs)
             \<and> (\<exists>key' e. keyDir d key' = Some e
                    \<and> Size e = of_nat (encoded_size bo (now, key, val))
                    \<and> Offset e = of_nat (length (log_of bo calls)))"
proof -
  let ?h = "encodeHeader bo (word_of_int now) (of_nat (length key)) (of_nat (length val))"
  let ?lk = "length key" and ?lv = "length val"
  let ?pre = "log_of bo calls"
  define part where "part = take (m - 12) (key @ val)"
  define buf where "buf = part @ replicate (?lk + ?lv - (m - 12)) (0 :: byte)"
  let ?content = "?pre @ ?h @ part"
  from assms(2) have sum: "?lk + ?lv < 2 ^ 32" by simp
  have enc: "encoded bo (now, key, val) = ?h @ key @ val"
    by (simp add: encoded.simps encodeKV_def)
  have cut: "take m (encoded bo (now, key, val)) = ?h @ part"
    using assms(3) by (simp add: enc part_def)
  have lpart: "length part = m - 12" "0 < m - 12" "m - 12 \<le> ?lk + ?lv"
    using assms(3,4) by (simp_all add: encoded_size_eq part_def)
  obtain offset' where
    pre: "getKeyDir_loop bo ?content (0, 0, Map.empty)
            = getKeyDir_loop bo ?content (length ?pre, offset', replay bo 0 calls Map.empty)"
    and w: "(word_of_int offset' :: u32) = of_nat (length ?pre)"
    using getKeyDir_loop_prefix [OF assms(1), of bo "[]" "?h @ part" 0 Map.empty] by auto
  let ?kd0 = "replay bo 0 calls Map.empty"
  have r1: "File_Read (?pre @ ?h @ part) (length ?pre) (make_bytes 12)
              = (12, None, ?h, length ?pre + 12)"
    using File_Read_inside [of "length ?pre" ?pre ?h 12 part] by simp
  have n: "unat (of_nat ?lk + of_nat ?lv :: u32) = ?lk + ?lv"
    using sum unat_of_nat_u32 [of "?lk + ?lv"] by simp
  have r2: "File_Read (?pre @ ?h @ part) (length ?pre + 12) (make_bytes (?lk + ?lv))
              = (m - 12, None, buf, length ?pre + 12 + (m - 12))"
    using File_Read_short [of part "m - 12" "?lk + ?lv" "?pre @ ?h"] lpart
    by (simp add: buf_def)
  have lbuf: "length buf = ?lk + ?lv" using lpart by (simp add: buf_def)
  have dk: "decodeKV bo (?h @ buf) = Inr (word_of_int now, take ?lk buf, drop ?lk buf)"
    using sum lbuf by (rule decodeKV_payload)
  let ?e = "NewKeyEntry (word_of_int now) (word_of_int offset')
              (of_nat (encoded_size bo (now, key, val)))"
  let ?kd1 = "?kd0(take ?lk buf \<mapsto> ?e)"
  have body: "getKeyDir_body bo ?content (length ?pre, offset', ?kd0)
                = Inr (length ?content,
                       offset' + int (unat (of_nat (encoded_size bo (now, key, val)) :: u32)),
                       ?kd1)"
    using lpart assms(3)
    by (simp add: getKeyDir_body_def r1 n r2 dk encoded_size_eq headerSize_def add.assoc Let_def)
  have "getKeyDir_loop bo ?content (length ?pre, offset', ?kd0)
          = getKeyDir_loop bo ?content
              (length ?content,
               offset' + int (unat (of_nat (encoded_size bo (now, key, val)) :: u32)), ?kd1)"
    by (subst getKeyDir_loop.simps) (simp add: body)
  also have "\<dots> = Inr ?kd1"
    by (rule getKeyDir_loop_end)
  finally have "getKeyDir_loop bo ?content (length ?pre, offset', ?kd0) = Inr ?kd1" .
  with pre have "getKeyDir_loop bo ?content (0, 0, Map.empty) = Inr ?kd1" by simp
  then have "NewDiskStore bo fs fileName =
               (Inr \<lparr>keyDir = ?kd1,
                     readFileHandle = \<lparr>fname = fileName, closed = False\<rparr>,
                     writeFileHandle = \<lparr>fname = fileName, closed = False\<rparr>,
                     currentOffset = 0\<rparr>, fs)"
    using assms(5) by (simp add: NewDiskStore_def getKeyDir_def isFileExists_def cut)
  moreover have "?kd1 (take ?lk buf) = Some ?e" by simp
  ultimately show ?thesis
    using w by (auto simp: NewKeyEntry_def)
qed

text \<open>
  A log of whole records followed by fewer than twelve bytes: the header read is short,
  the payload read that follows finds the end of the file, and the scan fails.
\<close>

lemma cut_header_rejected:
  assumes "\<forall>c \<in> set calls. readable c" and "part \<noteq> []" and "length part < 12"
    and "fs fileName = Some (log_of bo calls @ part)"
  shows "\<exists>e. NewDiskStore bo fs fileName = (Inl e, fs)"
proof -
  let ?pre = "log_of bo calls"
  let ?content = "?pre @ part"
  obtain offset' where
    pre: "getKeyDir_loop bo ?content (0, 0, Map.empty)
            = getKeyDir_loop bo ?content (length ?pre, offset', replay bo 0 calls Map.empty)"
    using getKeyDir_loop_prefix [OF assms(1), of bo "[]" part 0 Map.empty] by auto
  let ?kd0 = "replay bo 0 calls Map.empty"
  let ?hb = "part @ replicate (12 - length part) 0"
  have r1: "File_Read ?content (length ?pre) (make_bytes 12)
              = (length part, None, ?hb, length ?pre + length part)"
    using File_Read_short [of part "length part" 12 ?pre] assms(2,3) by simp
  obtain t ks vs where dh: "decodeHeader bo ?hb = Inr (t, ks, vs)"
    using assms(3) by (simp add: decodeHeader_def headerSize_def)
  have "\<exists>e. getKeyDir_body bo ?content (length ?pre, offset', ?kd0) = Inl (Inl e)"
  proof (cases "unat (ks + vs) = 0")
    case True
    have "File_Read ?content (length ?pre + length part) (make_bytes 0)
            = (0, None, [], length ?pre + length part)"
      by (simp add: File_Read_def make_bytes_def)
    then show ?thesis
      using assms(2) True by (simp add: getKeyDir_body_def r1 dh headerSize_def)
  next
    case False
    then have "File_Read ?content (length ?pre + length part) (make_bytes (unat (ks + vs)))
            = (0, Some EOF, make_bytes (unat (ks + vs)), length ?pre + length part)"
      by (intro File_Read_at_end) simp_all
    then show ?thesis
      using assms(2) by (simp add: getKeyDir_body_def r1 dh headerSize_def)
  qed
  then obtain e where b: "getKeyDir_body bo ?content (length ?pre, offset', ?kd0) = Inl (Inl e)"
    by blast
  have "getKeyDir_loop bo ?content (length ?pre, offset', ?kd0) = Inl e"
    by (subst getKeyDir_loop.simps) (simp add: b)
  with pre have "getKeyDir_loop bo ?content (0, 0, Map.empty) = Inl e" by simp
  then show ?thesis
    using assms(4) by (simp add: NewDiskStore_def getKeyDir_def isFileExists_def)
qed

text \<open>
  A log of whole records followed by a whole header that announces a payload, and nothing
  after it: the payload read finds the end of the file, and the scan fails.
\<close>

lemma cut_before_payload_rejected:
  assumes "\<forall>c \<in> set calls. readable c" and "readable (now, key, val)"
    and "fs fileName = Some (log_of bo calls @ take 12 (encoded bo (now, key, val)))"
  shows "NewDiskStore bo fs fileName = (Inl EOF, fs)"
proof -
  let ?h = "encodeHeader bo (word_of_int now) (of_nat (length key)) (of_nat (length val))"
  let ?lk = "length key" and ?lv = "length val"
  let ?pre = "log_of bo calls"
  let ?content = "?pre @ ?h"
  from assms(2) have sum: "?lk + ?lv < 2 ^ 32" and pos: "0 < ?lk + ?lv" by simp_all
  have cut: "take 12 (encoded bo (now, key, val)) = ?h"
    by (simp add: encoded.simps encodeKV_def)
  obtain offset' where
    pre: "getKeyDir_loop bo ?content (0, 0, Map.empty)
            = getKeyDir_loop bo ?content (length ?pre, offset', replay bo 0 calls Map.empty)"
    using getKeyDir_loop_prefix [OF assms(1), of bo "[]" ?h 0 Map.empty] by auto
  let ?kd0 = "replay bo 0 calls Map.empty"
  have r1: "File_Read (?pre @ ?h) (length ?pre) (make_bytes 12)
              = (12, None, ?h, length ?pre + 12)"
    using File_Read_inside [of "length ?pre" ?pre ?h 12 "[]"] by simp
  have n: "unat (of_nat ?lk + of_nat ?lv :: u32) = ?lk + ?lv"
    using sum unat_of_nat_u32 [of "?lk + ?lv"] by simp
  have r2: "File_Read (?pre @ ?h) (length ?pre + 12) (make_bytes (?lk + ?lv))
              = (0, Some EOF, make_bytes (?lk + ?lv), length ?pre + 12)"
    using pos by (intro File_Read_at_end) simp_all
  have body: "getKeyDir_body bo ?content (length ?pre, offset', ?kd0) = Inl (Inl EOF)"
    by (simp add: getKeyDir_body_def r1 n r2 headerSize_def)
  have "getKeyDir_loop bo ?content (length ?pre, offset', ?kd0) = Inl EOF"
    by (subst getKeyDir_loop.simps) (simp add: body)
  with pre have "getKeyDir_loop bo ?content (0, 0, Map.empty) = Inl EOF" by simp
  then show ?thesis
    using assms(3) by (simp add: NewDiskStore_def getKeyDir_def isFileExists_def cut)
qed

text \<open>
  C4 does not hold of the code. The log is one record of 15 bytes (key \<open>[107]\<close>, value
  \<open>[1, 2]\<close>) cut to 14 bytes, so the payload is one byte short. The payload read returns
  one byte less than asked and no error, the scan only tests \<^verbatim>\<open>n == 0\<close>, and opening the
  store succeeds with an entry of size 15 for the key.
\<close>

theorem truncated_payload_accepted:
  "entry_in
     (NewDiskStore LittleEndian
        [''db'' \<mapsto> take 14 (encoded LittleEndian (1, [107], [1, 2]))] ''db'')
     [107] = Some \<lparr>Timestamp = 1, Offset = 0, Size = 15\<rparr>"
  by (simp add: entry_in_def NewDiskStore_def getKeyDir_def isFileExists_def
        getKeyDir_loop.simps getKeyDir_body_def File_Read_def make_bytes_def headerSize_def
        encoded.simps encodeKV_def encodeHeader_def put_u32_le_def get_u32_le_def
        decodeHeader_def decodeKV_def NewKeyEntry_def Let_def)

end
